theory Spec2Isabelle
  imports Complex_Main "HOL-Library.Word"
begin

section \<open>PDF page to Markdown: a model of \<open>convertPdfToMd\<close>\<close>

text \<open>
  The development follows \<open>src/hooks/useConverter.ts\<close>, function \<open>convertPdfToMd\<close>.
  A JavaScript number is modelled as a \<open>real\<close>: the coordinates and sizes are taken
  to be finite, and arithmetic is exact. A JavaScript string is the list of its UTF-16
  code units, which is what \<open>length\<close>, indexing, \<open>slice\<close> and a regular expression
  without the \<open>u\<close> flag see.
\<close>

subsection \<open>Numbers and strings\<close>

type_synonym jschar = "16 word"
type_synonym jsstring = "jschar list"

definition ascii :: "string \<Rightarrow> jsstring" where
  "ascii s = map (\<lambda>c. of_nat (of_char c)) s"

text \<open>\<open>a || b\<close> on an optional number: \<open>undefined\<close> and \<open>0\<close> are falsy.\<close>

definition num_or :: "real option \<Rightarrow> real \<Rightarrow> real" where
  "num_or a b = (case a of None \<Rightarrow> b | Some x \<Rightarrow> if x = 0 then b else x)"

subsection \<open>Transforms and the operator list\<close>

text \<open>A transform is the array of six numbers \<open>[m0, m1, m2, m3, m4, m5]\<close>.\<close>

record matrix =
  m0 :: real
  m1 :: real
  m2 :: real
  m3 :: real
  m4 :: real
  m5 :: real

definition mat :: "real \<Rightarrow> real \<Rightarrow> real \<Rightarrow> real \<Rightarrow> real \<Rightarrow> real \<Rightarrow> matrix" where
  "mat a b c d e f = \<lparr>m0 = a, m1 = b, m2 = c, m3 = d, m4 = e, m5 = f\<rparr>"

definition multiply :: "matrix \<Rightarrow> matrix \<Rightarrow> matrix" where
  "multiply a b = mat
     (m0 a * m0 b + m1 a * m2 b)
     (m0 a * m1 b + m1 a * m3 b)
     (m2 a * m0 b + m3 a * m2 b)
     (m2 a * m1 b + m3 a * m3 b)
     (m4 a * m0 b + m5 a * m2 b + m4 a)
     (m4 a * m1 b + m5 a * m3 b + m5 a)"

definition identity_matrix :: matrix where
  "identity_matrix = mat 1 0 0 1 0 0"

text \<open>
  The image identifier is the template string \<open>pdf_img_<pageNumber>_<i>\<close>; two of them
  are equal exactly when the page number and the operator index are.
\<close>

datatype img_id = Pdf_img nat nat

record extracted_image =
  src :: jsstring
  alt :: img_id
  title :: jsstring
  ident :: img_id

record image_info =
  info_y :: real
  info_id :: img_id
  info_w :: real
  info_h :: real

datatype ops =
    OPS_save
  | OPS_restore
  | OPS_transform matrix
  | OPS_paintImageXObject jsstring
  | OPS_paintInlineImageXObject nat
  | OPS_other

text \<open>
  What the body of the \<open>try\<close> block does for one paint operator depends on pdf.js and
  on the browser's canvas: \<open>page.objs.get\<close> may raise or give a falsy image, the drawing
  code may raise, \<open>getContext\<close> and \<open>toBlob\<close> may give \<open>null\<close>. The model takes the
  outcome as a parameter, a function of the page number, the operator index and the
  operator. Only \<open>Png\<close> reaches \<open>URL.createObjectURL\<close> and the two \<open>push\<close> calls.
\<close>

datatype paint_outcome =
    Resolve_threw
  | Img_falsy
  | Decode_threw
  | No_context
  | No_blob
  | Png real real jsstring

type_synonym decoder = "nat \<Rightarrow> nat \<Rightarrow> ops \<Rightarrow> paint_outcome"

record tracker =
  ctm :: matrix
  transformStack :: "matrix list"
  pageImages :: "extracted_image list"
  imageInfos :: "image_info list"

definition visualTopY :: "matrix \<Rightarrow> real" where
  "visualTopY c =
     (let pdfY00 = m5 c; pdfY01 = m3 c + m5 c; pdfY10 = m1 c + m5 c;
          pdfY11 = m1 c + m3 c + m5 c
      in max (max (max pdfY00 pdfY01) pdfY10) pdfY11)"

definition paint :: "decoder \<Rightarrow> nat \<Rightarrow> nat \<Rightarrow> ops \<Rightarrow> tracker \<Rightarrow> tracker" where
  "paint dec pageNumber i fn st =
     (case dec pageNumber i fn of
        Png width height url \<Rightarrow>
          st\<lparr>pageImages := pageImages st @
                [\<lparr>src = url, alt = Pdf_img pageNumber i, title = [],
                  ident = Pdf_img pageNumber i\<rparr>],
             imageInfos := imageInfos st @
                [\<lparr>info_y = visualTopY (ctm st), info_id = Pdf_img pageNumber i,
                  info_w = width, info_h = height\<rparr>]\<rparr>
      | _ \<Rightarrow> st)"

fun track_op :: "decoder \<Rightarrow> nat \<Rightarrow> nat \<Rightarrow> ops \<Rightarrow> tracker \<Rightarrow> tracker" where
  "track_op dec pageNumber i OPS_save st =
     st\<lparr>transformStack := transformStack st @ [ctm st]\<rparr>"
| "track_op dec pageNumber i OPS_restore st =
     (if length (transformStack st) > 0
      then st\<lparr>ctm := last (transformStack st),
              transformStack := butlast (transformStack st)\<rparr>
      else st)"
| "track_op dec pageNumber i (OPS_transform args) st =
     st\<lparr>ctm := multiply (ctm st) args\<rparr>"
| "track_op dec pageNumber i (OPS_paintImageXObject imgName) st =
     paint dec pageNumber i (OPS_paintImageXObject imgName) st"
| "track_op dec pageNumber i (OPS_paintInlineImageXObject img) st =
     paint dec pageNumber i (OPS_paintInlineImageXObject img) st"
| "track_op dec pageNumber i OPS_other st = st"

text \<open>The loop \<open>for (let i = 0; i < ops.fnArray.length; i++)\<close>, from index \<open>i\<close> on.\<close>

fun track_ops :: "decoder \<Rightarrow> nat \<Rightarrow> nat \<Rightarrow> ops list \<Rightarrow> tracker \<Rightarrow> tracker" where
  "track_ops dec pageNumber i [] st = st"
| "track_ops dec pageNumber i (fn # rest) st =
     track_ops dec pageNumber (Suc i) rest (track_op dec pageNumber i fn st)"

definition tracker_init :: tracker where
  "tracker_init = \<lparr>ctm = identity_matrix, transformStack = [], pageImages = [],
                    imageInfos = []\<rparr>"

definition extract_images :: "decoder \<Rightarrow> nat \<Rightarrow> ops list \<Rightarrow> tracker" where
  "extract_images dec pageNumber fnArray = track_ops dec pageNumber 0 fnArray tracker_init"

text \<open>
  The composition the specification names, \<open>current \<circ> incoming\<close>: a point is mapped by
  the incoming matrix first and by the current one after it, where the six numbers
  \<open>[a, b, c, d, e, f]\<close> send \<open>(x, y)\<close> to \<open>(a x + c y + e, b x + d y + f)\<close>.
\<close>

definition apply_matrix :: "matrix \<Rightarrow> real \<times> real \<Rightarrow> real \<times> real" where
  "apply_matrix m p = (m0 m * fst p + m2 m * snd p + m4 m, m1 m * fst p + m3 m * snd p + m5 m)"

definition spec_compose :: "matrix \<Rightarrow> matrix \<Rightarrow> matrix" where
  "spec_compose cur inc = mat
     (m0 cur * m0 inc + m2 cur * m1 inc)
     (m1 cur * m0 inc + m3 cur * m1 inc)
     (m0 cur * m2 inc + m2 cur * m3 inc)
     (m1 cur * m2 inc + m3 cur * m3 inc)
     (m0 cur * m4 inc + m2 cur * m5 inc + m4 cur)
     (m1 cur * m4 inc + m3 cur * m5 inc + m5 cur)"

definition spec_visual_top :: "matrix \<Rightarrow> real" where
  "spec_visual_top m =
     Max (snd ` apply_matrix m ` {(0, 0), (0, 1), (1, 0), (1, 1)})"

subsection \<open>Whitespace, \<open>trim\<close> and the regular expressions\<close>

text \<open>
  \<open>String.prototype.trim\<close> and the class \<open>\s\<close> use the same set: the ECMAScript
  white space and line terminator code units.
\<close>

definition is_ws :: "jschar \<Rightarrow> bool" where
  "is_ws c = (c = 0x09 \<or> c = 0x0A \<or> c = 0x0B \<or> c = 0x0C \<or> c = 0x0D \<or> c = 0x20 \<or>
     c = 0xA0 \<or> c = 0x1680 \<or> (0x2000 \<le> c \<and> c \<le> 0x200A) \<or> c = 0x2028 \<or> c = 0x2029 \<or>
     c = 0x202F \<or> c = 0x205F \<or> c = 0x3000 \<or> c = 0xFEFF)"

definition trim :: "jsstring \<Rightarrow> jsstring" where
  "trim s = rev (dropWhile is_ws (rev (dropWhile is_ws s)))"

text \<open>
  The patterns of the source use character classes, sequence, alternation, repetition
  and the anchors \<open>^\<close> and \<open>$\<close> only, so \<open>test\<close> asks whether some substring belongs to
  a regular language. The matcher works by derivatives.
\<close>

datatype rx =
    Nul
  | Eps
  | Chr "jschar \<Rightarrow> bool"
  | Seq rx rx
  | Alt rx rx
  | Star rx

primrec nullable :: "rx \<Rightarrow> bool" where
  "nullable Nul = False"
| "nullable Eps = True"
| "nullable (Chr p) = False"
| "nullable (Seq r s) = (nullable r \<and> nullable s)"
| "nullable (Alt r s) = (nullable r \<or> nullable s)"
| "nullable (Star r) = True"

primrec deriv :: "jschar \<Rightarrow> rx \<Rightarrow> rx" where
  "deriv c Nul = Nul"
| "deriv c Eps = Nul"
| "deriv c (Chr p) = (if p c then Eps else Nul)"
| "deriv c (Seq r s) =
     (if nullable r then Alt (Seq (deriv c r) s) (deriv c s) else Seq (deriv c r) s)"
| "deriv c (Alt r s) = Alt (deriv c r) (deriv c s)"
| "deriv c (Star r) = Seq (deriv c r) (Star r)"

primrec matches :: "rx \<Rightarrow> jsstring \<Rightarrow> bool" where
  "matches r [] = nullable r"
| "matches r (c # s) = matches (deriv c r) s"

text \<open>
  A pattern is its body and its two anchors: \<open>Regexp True r False\<close> is \<open>/^r/\<close>. Without
  an anchor the match may start (or end) anywhere.
\<close>

datatype regexp = Regexp bool rx bool

definition any_unit :: rx where
  "any_unit = Chr (\<lambda>c. True)"

fun regexp_test :: "regexp \<Rightarrow> jsstring \<Rightarrow> bool" where
  "regexp_test (Regexp at_start r at_end) s =
     matches (Seq (if at_start then Eps else Star any_unit)
               (Seq r (if at_end then Eps else Star any_unit))) s"

text \<open>
  With the flag \<open>i\<close> and without \<open>u\<close>, an ASCII letter of a pattern matches its two
  cases and nothing else: a code unit of 128 or more is never canonicalised to one
  below 128.
\<close>

definition ascii_upper :: "jschar \<Rightarrow> jschar" where
  "ascii_upper c = (if 0x61 \<le> c \<and> c \<le> 0x7A then c - 0x20 else c)"

definition lit :: "char \<Rightarrow> rx" where
  "lit ch = Chr (\<lambda>c. c = of_nat (of_char ch))"

definition lit_i :: "char \<Rightarrow> rx" where
  "lit_i ch = Chr (\<lambda>c. ascii_upper c = ascii_upper (of_nat (of_char ch)))"

primrec seq_of :: "rx list \<Rightarrow> rx" where
  "seq_of [] = Eps"
| "seq_of (r # rs) = Seq r (seq_of rs)"

definition digit :: rx where
  "digit = Chr (\<lambda>c. 0x30 \<le> c \<and> c \<le> 0x39)"

definition space :: rx where
  "space = Chr is_ws"

definition non_space :: rx where
  "non_space = Chr (\<lambda>c. \<not> is_ws c)"

definition plus :: "rx \<Rightarrow> rx" where
  "plus r = Seq r (Star r)"

definition opt :: "rx \<Rightarrow> rx" where
  "opt r = Alt r Eps"

definition about_blank :: regexp where
  "about_blank = Regexp False (seq_of (map lit_i ''about:blank'')) False"

definition IGNORE_PATTERNS :: "regexp list" where
  "IGNORE_PATTERNS =
    [about_blank,
     Regexp True (seq_of [plus digit, Star space, lit CHR ''/'', Star space, plus digit]) True,
     Regexp True (seq_of [lit CHR ''('', plus digit, lit CHR '')'']) True,
     Regexp True (seq_of [Star space, seq_of (map lit_i ''Page''), Star space, plus digit]) False,
     Regexp True (seq_of [digit, digit, digit, digit, Alt (lit CHR ''/'') (lit CHR ''-''),
                          digit, opt digit, Alt (lit CHR ''/'') (lit CHR ''-''),
                          digit, opt digit]) False,
     Regexp False (seq_of [Alt (seq_of (map lit ''www.''))
                            (Alt (seq_of (map lit ''http:'')) (seq_of (map lit ''https:''))),
                           plus non_space]) False,
     Regexp False (seq_of (map lit_i ''.com'')) True]"

subsection \<open>Text runs and the base font size\<close>

record item =
  str :: jsstring
  transform :: matrix
  height :: "real option"
  width :: "real option"

text \<open>\<open>item.height || item.transform[3] || d\<close>\<close>

definition size_or :: "item \<Rightarrow> real \<Rightarrow> real" where
  "size_or it d = num_or (height it) (num_or (Some (m3 (transform it))) d)"

text \<open>\<open>Math.round\<close> rounds a half towards plus infinity.\<close>

definition js_round :: "real \<Rightarrow> int" where
  "js_round h = \<lfloor>h + 1 / 2\<rfloor>"

text \<open>
  \<open>fontSizes\<close> is an object whose property names are the rounded sizes. It is kept as
  the list of its properties in creation order. \<open>for (const size in fontSizes)\<close> visits
  the array-index names (the integers from \<open>0\<close> to \<open>2^32 - 2\<close>) first, in ascending
  numeric order, and the other names after them in creation order.
\<close>

type_synonym font_sizes = "(int \<times> nat) list"

fun set_prop :: "font_sizes \<Rightarrow> int \<Rightarrow> nat \<Rightarrow> font_sizes" where
  "set_prop [] k v = [(k, v)]"
| "set_prop ((k', v') # ps) k v =
     (if k' = k then (k, v) # ps else (k', v') # set_prop ps k v)"

definition count_item :: "font_sizes \<Rightarrow> item \<Rightarrow> font_sizes" where
  "count_item fontSizes it =
     (let h = size_or it 10; rounded = js_round h
      in set_prop fontSizes rounded
           ((case map_of fontSizes rounded of None \<Rightarrow> 0 | Some n \<Rightarrow> n) + length (str it)))"

definition is_array_index :: "int \<Rightarrow> bool" where
  "is_array_index k = (0 \<le> k \<and> k < 2 ^ 32 - 1)"

definition own_keys :: "font_sizes \<Rightarrow> int list" where
  "own_keys fontSizes =
     sort (filter is_array_index (map fst fontSizes)) @
     filter (\<lambda>k. \<not> is_array_index k) (map fst fontSizes)"

fun pick_base :: "font_sizes \<Rightarrow> int list \<Rightarrow> real \<times> nat \<Rightarrow> real \<times> nat" where
  "pick_base fontSizes [] (baseFontSize, maxCount) = (baseFontSize, maxCount)"
| "pick_base fontSizes (sz # rest) (baseFontSize, maxCount) =
     (case map_of fontSizes sz of
        None \<Rightarrow> pick_base fontSizes rest (baseFontSize, maxCount)
      | Some n \<Rightarrow>
          if n > maxCount then pick_base fontSizes rest (of_int sz, n)
          else pick_base fontSizes rest (baseFontSize, maxCount))"

definition base_font_size :: "item list \<Rightarrow> real" where
  "base_font_size items =
     (let fontSizes = foldl count_item [] items;
          baseFontSize = fst (pick_base fontSizes (own_keys fontSizes) (0, 0))
      in if baseFontSize = 0 then 10 else baseFontSize)"

subsection \<open>Filtering text runs and clustering them into lines\<close>

definition HEADER_HEIGHT :: real where
  "HEADER_HEIGHT = 70"

definition FOOTER_HEIGHT :: real where
  "FOOTER_HEIGHT = 70"

definition Y_TOLERANCE :: real where
  "Y_TOLERANCE = 4"

datatype line =
    Text_line real "item list"
  | Image_line real img_id

fun line_y :: "line \<Rightarrow> real" where
  "line_y (Text_line y its) = y"
| "line_y (Image_line y imageId) = y"

text \<open>\<open>!item.str || item.str.trim().length === 0\<close>\<close>

definition is_blank :: "jsstring \<Rightarrow> bool" where
  "is_blank s = (s = [] \<or> length (trim s) = 0)"

definition item_y :: "item \<Rightarrow> real" where
  "item_y it = (let fontSize = size_or it 10 in m5 (transform it) + fontSize * 0.8)"

definition isEdge :: "real \<Rightarrow> real \<Rightarrow> bool" where
  "isEdge pageHeight y = (y < FOOTER_HEIGHT \<or> y > pageHeight - HEADER_HEIGHT)"

text \<open>Whether the loop over the items reaches a \<open>continue\<close> for this item.\<close>

definition skip_item :: "real \<Rightarrow> real \<Rightarrow> item \<Rightarrow> bool" where
  "skip_item pageHeight baseFontSize it =
     (if is_blank (str it) then True
      else if isEdge pageHeight (item_y it) \<and>
              list_ex (\<lambda>p. regexp_test p (trim (str it))) IGNORE_PATTERNS then True
      else if isEdge pageHeight (item_y it) \<and> size_or it 10 < baseFontSize * 0.9 then True
      else if regexp_test about_blank (str it) then True
      else False)"

text \<open>
  \<open>lines.find\<close> gives the first text line within the tolerance; the item is pushed to
  it, or to a new line at the end of \<open>lines\<close>.
\<close>

fun add_item :: "real \<Rightarrow> item \<Rightarrow> line list \<Rightarrow> line list" where
  "add_item y it [] = [Text_line y [it]]"
| "add_item y it (Text_line ly its # ls) =
     (if \<bar>ly - y\<bar> < Y_TOLERANCE then Text_line ly (its @ [it]) # ls
      else Text_line ly its # add_item y it ls)"
| "add_item y it (Image_line ly imageId # ls) = Image_line ly imageId # add_item y it ls"

definition text_lines :: "real \<Rightarrow> real \<Rightarrow> item list \<Rightarrow> line list" where
  "text_lines pageHeight baseFontSize its =
     foldl (\<lambda>lines it. if skip_item pageHeight baseFontSize it then lines
                        else add_item (item_y it) it lines) [] its"

definition image_at_edge :: "real \<Rightarrow> image_info \<Rightarrow> bool" where
  "image_at_edge pageHeight img = (info_y img < 20 \<or> info_y img > pageHeight - 20)"

definition add_image_lines :: "real \<Rightarrow> image_info list \<Rightarrow> line list \<Rightarrow> line list" where
  "add_image_lines pageHeight infos lines =
     foldl (\<lambda>lines img. if image_at_edge pageHeight img then lines
                         else lines @ [Image_line (info_y img) (info_id img)]) lines infos"

text \<open>
  \<open>Array.prototype.sort\<close> with a comparison function: a stable sort, here by insertion.
  A negative or zero result keeps the first argument before the second.
\<close>

fun insert_by :: "('a \<Rightarrow> 'a \<Rightarrow> real) \<Rightarrow> 'a \<Rightarrow> 'a list \<Rightarrow> 'a list" where
  "insert_by cmp x [] = [x]"
| "insert_by cmp x (y # ys) =
     (if cmp x y \<le> 0 then x # y # ys else y # insert_by cmp x ys)"

definition array_sort :: "('a \<Rightarrow> 'a \<Rightarrow> real) \<Rightarrow> 'a list \<Rightarrow> 'a list" where
  "array_sort cmp xs = foldr (insert_by cmp) xs []"

definition page_lines :: "real \<Rightarrow> real \<Rightarrow> item list \<Rightarrow> image_info list \<Rightarrow> line list" where
  "page_lines pageHeight baseFontSize its infos =
     array_sort (\<lambda>a b. line_y b - line_y a)
       (add_image_lines pageHeight infos (text_lines pageHeight baseFontSize its))"

subsection \<open>Processed lines: text, heading prefix, width\<close>

datatype processed =
    P_image line
  | P_text jsstring jsstring real line

fun data :: "processed \<Rightarrow> line" where
  "data (P_image l) = l"
| "data (P_text text prefix lineWidth l) = l"

text \<open>The state of the loop over a line's items: \<open>lineStr\<close>, \<open>lastXEnd\<close>, \<open>startX\<close>, \<open>endX\<close>.\<close>

definition append_item ::
  "real \<Rightarrow> jsstring \<times> real \<times> real \<times> real \<Rightarrow> item \<Rightarrow> jsstring \<times> real \<times> real \<times> real" where
  "append_item baseFontSize st it =
     (case st of (lineStr, lastXEnd, startX, endX) \<Rightarrow>
        let itemX = m4 (transform it);
            itemWidth = num_or (width it) 0;
            startX' = (if startX = - 1 \<or> itemX < startX then itemX else startX);
            endX' = (if itemX + itemWidth > endX then itemX + itemWidth else endX);
            lineStr' =
              (if lastXEnd \<ge> 0 then
                 (let gap = itemX - lastXEnd; fontSize = size_or it baseFontSize
                  in if gap > fontSize * 0.25 then lineStr @ ascii '' '' else lineStr)
               else lineStr)
        in (lineStr' @ str it, itemX + itemWidth, startX', endX'))"

definition heading_prefix :: "real \<Rightarrow> real \<Rightarrow> jsstring" where
  "heading_prefix maxLineFontSize baseFontSize =
     (if \<bar>maxLineFontSize - baseFontSize\<bar> > 1 then
        (if maxLineFontSize \<ge> baseFontSize * 1.8 then ascii ''# ''
         else if maxLineFontSize \<ge> baseFontSize * 1.4 then ascii ''## ''
         else if maxLineFontSize \<ge> baseFontSize * 1.15 then ascii ''### ''
         else [])
      else [])"

text \<open>
  \<open>Math.max(...sizes)\<close> of no argument is minus infinity: the guard holds and none of
  the three comparisons does, so the prefix is empty.
\<close>

definition line_prefix :: "real \<Rightarrow> item list \<Rightarrow> jsstring" where
  "line_prefix baseFontSize its =
     (case map (\<lambda>i. size_or i 0) its of
        [] \<Rightarrow> []
      | h # hs \<Rightarrow> heading_prefix (foldl max h hs) baseFontSize)"

fun process_line :: "real \<Rightarrow> line \<Rightarrow> processed" where
  "process_line baseFontSize (Image_line y imageId) = P_image (Image_line y imageId)"
| "process_line baseFontSize (Text_line y its) =
     (let sorted_items = array_sort (\<lambda>a b. m4 (transform a) - m4 (transform b)) its
      in case foldl (append_item baseFontSize) ([], - 1, - 1, - 1) sorted_items of
           (lineStr, lastXEnd, startX, endX) \<Rightarrow>
             P_text lineStr (line_prefix baseFontSize sorted_items) (endX - startX)
               (Text_line y sorted_items))"

fun lineWidth_of :: "processed \<Rightarrow> real option" where
  "lineWidth_of (P_image l) = None"
| "lineWidth_of (P_text text prefix lineWidth l) = Some lineWidth"

definition max_line_width :: "processed list \<Rightarrow> real" where
  "max_line_width ps =
     foldl (\<lambda>maxLineWidth p.
              case lineWidth_of p of
                None \<Rightarrow> maxLineWidth
              | Some lineWidth \<Rightarrow> if lineWidth > maxLineWidth then lineWidth else maxLineWidth)
       0 ps"

subsection \<open>Paragraph assembly\<close>

definition nn :: jsstring where
  "nn = [0x0A, 0x0A]"

definition cjk_unit :: "jschar \<Rightarrow> bool" where
  "cjk_unit c = ((0x4e00 \<le> c \<and> c \<le> 0x9fa5) \<or> (0x3000 \<le> c \<and> c \<le> 0x303f) \<or>
                 (0xff00 \<le> c \<and> c \<le> 0xffef))"

text \<open>
  \<open>isCJK\<close> tests a character class against its argument. \<open>text[0]\<close> of an empty string
  is \<open>undefined\<close>, which \<open>test\<close> reads as the string \<open>undefined\<close>.
\<close>

definition isCJK :: "jsstring option \<Rightarrow> bool" where
  "isCJK char = list_ex cjk_unit (case char of None \<Rightarrow> ascii ''undefined'' | Some s \<Rightarrow> s)"

definition slice_last :: "jsstring \<Rightarrow> jsstring" where
  "slice_last s = (if s = [] then [] else [last s])"

definition char_at0 :: "jsstring \<Rightarrow> jsstring option" where
  "char_at0 s = (case s of [] \<Rightarrow> None | c # cs \<Rightarrow> Some [c])"

fun imageId :: "line \<Rightarrow> img_id option" where
  "imageId (Image_line y i) = Some i"
| "imageId (Text_line y its) = None"

datatype error = TypeError

definition flush_paragraph :: "jsstring \<Rightarrow> jsstring \<Rightarrow> jsstring" where
  "flush_paragraph pageText currentParagraph =
     (if currentParagraph \<noteq> [] then pageText @ currentParagraph @ nn else pageText)"

text \<open>
  One call of the \<open>forEach\<close> body on the state \<open>(pageText, currentParagraph)\<close>; \<open>prev\<close> is
  \<open>processedLines[index - 1]\<close>, which is \<open>undefined\<close> at index \<open>0\<close>, where reading its
  \<open>lineWidth\<close> raises.
\<close>

fun assemble_step ::
  "extracted_image list \<Rightarrow> real \<Rightarrow> processed option \<Rightarrow> processed \<Rightarrow>
     jsstring \<times> jsstring \<Rightarrow> error + jsstring \<times> jsstring" where
  "assemble_step imgs maxLineWidth prev (P_image l) (pageText, currentParagraph) =
     (let pageText' = flush_paragraph pageText currentParagraph
      in case find (\<lambda>i. Some (ident i) = imageId l) imgs of
           None \<Rightarrow> Inr (pageText', [])
         | Some i \<Rightarrow>
             if src i \<noteq> [] then Inr (pageText' @ ascii ''![Image]('' @ src i @ ascii '')'' @ nn, [])
             else Inr (pageText', []))"
| "assemble_step imgs maxLineWidth prev (P_text text prefix lineWidth l)
     (pageText, currentParagraph) =
     (if prefix \<noteq> [] then
        Inr (flush_paragraph pageText currentParagraph @ prefix @ text @ nn, [])
      else if currentParagraph = [] then Inr (pageText, text)
      else
        (case prev of
           None \<Rightarrow> Inl TypeError
         | Some prevLine \<Rightarrow>
             let prevWidth = num_or (lineWidth_of prevLine) 0 in
             if prevWidth < maxLineWidth * 0.85 then Inr (pageText @ currentParagraph @ nn, text)
             else
               let lastChar = slice_last currentParagraph; firstChar = char_at0 text in
               if isCJK (Some lastChar) \<and> isCJK firstChar
               then Inr (pageText, currentParagraph @ text)
               else if lastChar = ascii '' '' \<or> firstChar = Some (ascii '' '')
               then Inr (pageText, currentParagraph @ text)
               else Inr (pageText, currentParagraph @ ascii '' '' @ text)))"

fun assemble_loop ::
  "extracted_image list \<Rightarrow> real \<Rightarrow> processed option \<Rightarrow> processed list \<Rightarrow>
     jsstring \<times> jsstring \<Rightarrow> error + jsstring \<times> jsstring" where
  "assemble_loop imgs maxLineWidth prev [] st = Inr st"
| "assemble_loop imgs maxLineWidth prev (p # ps) st =
     (case assemble_step imgs maxLineWidth prev p st of
        Inl e \<Rightarrow> Inl e
      | Inr st' \<Rightarrow> assemble_loop imgs maxLineWidth (Some p) ps st')"

definition assemble :: "extracted_image list \<Rightarrow> processed list \<Rightarrow> error + jsstring" where
  "assemble imgs processedLines =
     (case assemble_loop imgs (max_line_width processedLines) None processedLines ([], []) of
        Inl e \<Rightarrow> Inl e
      | Inr (pageText, currentParagraph) \<Rightarrow> Inr (flush_paragraph pageText currentParagraph))"

subsection \<open>Pages and the document\<close>

record page =
  pageHeight :: real
  items :: "item list"
  fnArray :: "ops list"

definition processed_lines :: "decoder \<Rightarrow> nat \<Rightarrow> page \<Rightarrow> processed list" where
  "processed_lines dec pageNumber pg =
     (let baseFontSize = base_font_size (items pg);
          tr = extract_images dec pageNumber (fnArray pg)
      in map (process_line baseFontSize)
           (page_lines (pageHeight pg) baseFontSize (items pg) (imageInfos tr)))"

definition convert_page :: "decoder \<Rightarrow> nat \<Rightarrow> page \<Rightarrow> error + jsstring \<times> extracted_image list" where
  "convert_page dec pageNumber pg =
     (let tr = extract_images dec pageNumber (fnArray pg)
      in case assemble (pageImages tr) (processed_lines dec pageNumber pg) of
           Inl e \<Rightarrow> Inl e
         | Inr pageText \<Rightarrow> Inr (pageText, pageImages tr))"

fun convert_pages ::
  "decoder \<Rightarrow> nat \<Rightarrow> page list \<Rightarrow> jsstring list \<times> extracted_image list \<Rightarrow>
     error + jsstring list \<times> extracted_image list" where
  "convert_pages dec pageNumber [] (parts, allExtractedImages) = Inr (parts, allExtractedImages)"
| "convert_pages dec pageNumber (pg # pgs) (parts, allExtractedImages) =
     (case convert_page dec pageNumber pg of
        Inl e \<Rightarrow> Inl e
      | Inr (pageText, imgs) \<Rightarrow>
          convert_pages dec (Suc pageNumber) pgs
            (if trim pageText \<noteq> [] then parts @ [pageText] else parts,
             allExtractedImages @ imgs))"

fun join :: "jsstring \<Rightarrow> jsstring list \<Rightarrow> jsstring" where
  "join sep [] = []"
| "join sep [x] = x"
| "join sep (x # y # ys) = x @ sep @ join sep (y # ys)"

text \<open>
  The result of a conversion: the Markdown string that is returned and the images
  given to \<open>setExtractedImages\<close>; \<open>Inl\<close> when the conversion raises.
\<close>

definition convertPdfToMd :: "decoder \<Rightarrow> page list \<Rightarrow> error + jsstring \<times> extracted_image list" where
  "convertPdfToMd dec pages =
     (case convert_pages dec 1 pages ([], []) of
        Inl e \<Rightarrow> Inl e
      | Inr (parts, allExtractedImages) \<Rightarrow> Inr (join nn parts, allExtractedImages))"

subsection \<open>Example inputs\<close>

definition translate_then_scale :: "ops list" where
  "translate_then_scale =
     [OPS_transform (mat 1 0 0 1 10 20), OPS_save, OPS_transform (mat (1 / 2) 0 0 (1 / 2) 0 0),
      OPS_paintImageXObject (ascii ''Im0''), OPS_restore]"


definition run15 :: item where
  "run15 = \<lparr>str = ascii ''Intro'', transform = mat 15 0 0 15 72 600, height = Some 15,
             width = Some 40\<rparr>"

definition wide_line :: "jsstring \<Rightarrow> processed" where
  "wide_line s = P_text s [] 100 (Text_line 500 [])"

subsection \<open>The join rule in the specification's words\<close>

text \<open>
  No separator between two CJK characters; otherwise a single space unless either
  boundary character is already whitespace.
\<close>

definition spec_join :: "jsstring \<Rightarrow> jsstring \<Rightarrow> jsstring" where
  "spec_join paragraph text =
     (if cjk_unit (last paragraph) \<and> cjk_unit (hd text) then paragraph @ text
      else if is_ws (last paragraph) \<or> is_ws (hd text) then paragraph @ text
      else paragraph @ ascii '' '' @ text)"

definition png_decoder :: decoder where
  "png_decoder = (\<lambda>p i f. Png 64 48 (ascii ''blob:1''))"


subsection \<open>The base font size in the specification's words\<close>

text \<open>
  The rounded size of a run is its bucket key; a bucket's count is the number of code
  units of the runs with that key. The specification takes the key with the largest
  count, the first-seen one among equals, and 10 when there is no run.
\<close>

definition key_of :: "item \<Rightarrow> int" where
  "key_of it = js_round (size_or it 10)"

definition bucket_count :: "item list \<Rightarrow> int \<Rightarrow> nat" where
  "bucket_count its k = sum_list (map (\<lambda>it. length (str it)) (filter (\<lambda>it. key_of it = k) its))"

definition first_seen_keys :: "item list \<Rightarrow> int list" where
  "first_seen_keys its = rev (remdups (rev (map key_of its)))"

definition spec_base_font_size :: "item list \<Rightarrow> real" where
  "spec_base_font_size its =
     (case find (\<lambda>k. \<forall>k' \<in> set (first_seen_keys its). bucket_count its k' \<le> bucket_count its k)
             (first_seen_keys its) of
        None \<Rightarrow> 10
      | Some k \<Rightarrow> of_int k)"

definition run14 :: item where
  "run14 = \<lparr>str = ascii ''ab'', transform = mat 14 0 0 14 72 700, height = Some 14, width = Some 20\<rparr>"
definition run12 :: item where
  "run12 = \<lparr>str = ascii ''cd'', transform = mat 12 0 0 12 72 600, height = Some 12, width = Some 20\<rparr>"

definition cnt :: "font_sizes \<Rightarrow> int \<Rightarrow> nat" where
  "cnt fs k = (case map_of fs k of None \<Rightarrow> 0 | Some n \<Rightarrow> n)"


subsection \<open>The language of a pattern\<close>







subsection \<open>Outcomes and operators, classified\<close>

fun is_png :: "paint_outcome \<Rightarrow> bool" where
  "is_png (Png w h url) = True"
| "is_png other = False"

fun is_paint :: "ops \<Rightarrow> bool" where
  "is_paint (OPS_paintImageXObject imgName) = True"
| "is_paint (OPS_paintInlineImageXObject img) = True"
| "is_paint other = False"

definition failing_decoder :: decoder where
  "failing_decoder = (\<lambda>p i f. if i = 1 then Decode_threw else Png 64 48 (ascii ''blob:1''))"

definition two_image_page :: page where
  "two_image_page = \<lparr>pageHeight = 800, items = [run15],
     fnArray = [OPS_transform (mat 100 0 0 650 0 0), OPS_paintImageXObject (ascii ''Im0''),
                OPS_paintInlineImageXObject 7]\<rparr>"


definition edge_image_page :: page where
  "edge_image_page = \<lparr>pageHeight = 800, items = [run15],
     fnArray = [OPS_transform (mat 100 0 0 10 0 0), OPS_paintImageXObject (ascii ''Im0'')]\<rparr>"

definition edge_info :: image_info where
  "edge_info = \<lparr>info_y = 10, info_id = Pdf_img 1 1, info_w = 64, info_h = 48\<rparr>"


subsection \<open>Lines and processed lines with visible text\<close>

fun good_line :: "line \<Rightarrow> bool" where
  "good_line (Text_line y its) = (its \<noteq> [] \<and> (\<forall>it \<in> set its. \<not> is_blank (str it)))"
| "good_line (Image_line y i) = True"

fun good_processed :: "processed \<Rightarrow> bool" where
  "good_processed (P_text text prefix lineWidth l) = (\<exists>c \<in> set text. \<not> is_ws c)"
| "good_processed (P_image l) = True"

definition hello_run :: item where
  "hello_run = \<lparr>str = ascii ''hello'', transform = mat 12 0 0 12 72 600, height = Some 12,
                 width = Some 100\<rparr>"

definition world_run :: item where
  "world_run = \<lparr>str = ascii ''world'', transform = mat 12 0 0 12 72 580, height = Some 12,
                 width = Some 90\<rparr>"

definition hello_page :: page where
  "hello_page = \<lparr>pageHeight = 800, items = [hello_run, world_run], fnArray = [OPS_save, OPS_restore]\<rparr>"

definition empty_page :: page where
  "empty_page = \<lparr>pageHeight = 800, items = [], fnArray = []\<rparr>"


text \<open>No transform of the tracker, current or saved, has a translation.\<close>

definition untranslated :: "tracker \<Rightarrow> bool" where
  "untranslated st = (\<forall>m \<in> set (ctm st # transformStack st). m4 m = 0 \<and> m5 m = 0)"


section \<open>Properties\<close>

lemma spec_compose_apply:
  "apply_matrix (spec_compose cur inc) p = apply_matrix cur (apply_matrix inc p)"
  by (simp add: apply_matrix_def spec_compose_def mat_def algebra_simps)

lemma visualTopY_spec: "visualTopY m = spec_visual_top m"
  by (simp add: visualTopY_def spec_visual_top_def apply_matrix_def Let_def max.commute
      max.left_commute max.assoc)

text \<open>
  C9. A restore-state operator met while the stack of saved transforms is empty changes
  nothing: the tracker's state after it is the state before it (the current transform is
  neither reset nor lost), and the operators after it are replayed from that same state
  at the following index.
\<close>

theorem restore_on_empty_stack_is_noop:
  "transformStack st = [] \<Longrightarrow>
     track_op dec pageNumber i OPS_restore st = st \<and>
     ctm (track_op dec pageNumber i OPS_restore st) = ctm st \<and>
     track_ops dec pageNumber i (OPS_restore # rest) st =
       track_ops dec pageNumber (Suc i) rest st"
  by simp

theorem restore_on_empty_stack_is_noop_witness:
  "transformStack tracker_init = [] \<and>
   track_op (\<lambda>p i f. Img_falsy) 1 0 OPS_restore tracker_init = tracker_init \<and>
   ctm (track_op (\<lambda>p i f. Img_falsy) 1 0 OPS_restore tracker_init) = ctm tracker_init \<and>
   track_ops (\<lambda>p i f. Img_falsy) 1 0 [OPS_restore, OPS_save] tracker_init =
     track_ops (\<lambda>p i f. Img_falsy) 1 1 [OPS_save] tracker_init"
  using restore_on_empty_stack_is_noop [of tracker_init "\<lambda>p i f. Img_falsy" 1 0 "[OPS_save]"]
  by (simp add: tracker_init_def)

subsection \<open>The transform tracker\<close>

lemma multiply_ignores_incoming_translation:
  "multiply a (b\<lparr>m4 := e, m5 := f\<rparr>) = multiply a b"
  by (simp add: multiply_def)

text \<open>
  Since the identity has no translation and \<open>multiply\<close> takes the translation from its
  first argument only, the tracker's current transform never has one, whatever the
  operators are.
\<close>

lemma track_op_untranslated:
  "untranslated st \<Longrightarrow> untranslated (track_op dec pageNumber i f st)"
proof (cases f)
  case OPS_restore
  assume "untranslated st"
  then show ?thesis unfolding OPS_restore untranslated_def
    by (cases "transformStack st" rule: rev_cases) auto
qed (auto simp: untranslated_def multiply_def mat_def paint_def split: paint_outcome.splits)

lemma track_ops_untranslated:
  "untranslated st \<Longrightarrow> untranslated (track_ops dec pageNumber i fns st)"
  by (induction fns arbitrary: i st) (simp_all add: track_op_untranslated)

lemma extract_images_untranslated: "untranslated (extract_images dec pageNumber fns)"
  unfolding extract_images_def
  by (rule track_ops_untranslated)
    (simp add: untranslated_def tracker_init_def identity_matrix_def mat_def)

text \<open>
  C1. The claim is that a concatenate-transform operator replaces the current transform
  by its composition with the incoming matrix, translation included, so that an image
  painted after a translation, a save and a scale by one half has the visual top of the
  half-size unit square moved by that translation. The code's \<open>multiply\<close> never reads the
  incoming translation: on the stream translate (10, 20), save, scale 0.5, paint, restore
  the translation is lost at the first operator and the image's visual top is 0.5, where
  the composition gives 20.5 (and 10.5 if the two matrices are composed the other way
  round).
\<close>

theorem multiply_loses_translation:
  "multiply identity_matrix (mat 1 0 0 1 10 20) = identity_matrix \<and>
   spec_compose identity_matrix (mat 1 0 0 1 10 20) = mat 1 0 0 1 10 20 \<and>
   multiply (mat 1 0 0 1 10 20) (mat (1 / 2) 0 0 (1 / 2) 0 0) = mat (1 / 2) 0 0 (1 / 2) 15 30 \<and>
   spec_compose (mat 1 0 0 1 10 20) (mat (1 / 2) 0 0 (1 / 2) 0 0) =
     mat (1 / 2) 0 0 (1 / 2) 10 20 \<and>
   map info_y (imageInfos (extract_images (\<lambda>p i f. Png 64 48 (ascii ''blob:1'')) 1
      translate_then_scale)) = [1 / 2] \<and>
   spec_visual_top (spec_compose (mat 1 0 0 1 10 20) (mat (1 / 2) 0 0 (1 / 2) 0 0)) = 41 / 2 \<and>
   spec_visual_top (spec_compose (mat (1 / 2) 0 0 (1 / 2) 0 0) (mat 1 0 0 1 10 20)) = 21 / 2"
  by (simp add: extract_images_def translate_then_scale_def tracker_init_def paint_def
      visualTopY_def multiply_def identity_matrix_def mat_def spec_visual_top_def
      spec_compose_def apply_matrix_def)

subsection \<open>Sorting\<close>

lemma set_insert_by: "set (insert_by cmp x ys) = insert x (set ys)"
  by (induction ys) auto

lemma set_array_sort: "set (array_sort cmp xs) = set xs"
  by (induction xs) (simp_all add: array_sort_def set_insert_by)


subsection \<open>Headings\<close>





subsection \<open>Merging a line into a paragraph\<close>

lemma isCJK_single: "isCJK (Some [c]) = cjk_unit c"
  by (simp add: isCJK_def)

text \<open>
  C6, as the code has it. On the merge path (a non-empty paragraph, a plain line, and a
  previous line whose width is not below 85% of the largest line width) the paragraph
  and the line are concatenated with no separator if the paragraph's last and the
  line's first code unit are both in the CJK ranges; otherwise with no separator if
  one of the two is the space U+0020, and with one space between them in every other
  case. The page text is not touched. The two CJK lines and \<open>hello\<close>, \<open>world\<close> of the
  specification are the instances of the witness.
\<close>

theorem merge_join_rule:
  assumes "currentParagraph \<noteq> []" and "text \<noteq> []"
    and "\<not> num_or (lineWidth_of prevLine) 0 < maxLineWidth * 0.85"
  shows "assemble_step imgs maxLineWidth (Some prevLine) (P_text text [] lineWidth l)
           (pageText, currentParagraph) =
         Inr (pageText,
              if cjk_unit (last currentParagraph) \<and> cjk_unit (hd text)
              then currentParagraph @ text
              else if last currentParagraph = 0x20 \<or> hd text = 0x20
              then currentParagraph @ text
              else currentParagraph @ ascii '' '' @ text)"
proof -
  obtain c cs where t: "text = c # cs" using assms(2) by (cases "text") auto
  show ?thesis using assms(1,3)
    by (simp add: t Let_def slice_last_def char_at0_def isCJK_single ascii_def)
qed

theorem merge_join_rule_witness:
  "[0x4F60, 0x597D] \<noteq> ([] :: jsstring) \<and> [0x4E16, 0x754C] \<noteq> ([] :: jsstring) \<and>
   \<not> num_or (lineWidth_of (wide_line [0x4F60, 0x597D])) 0 < 100 * 0.85 \<and>
   assemble_step [] 100 (Some (wide_line [0x4F60, 0x597D])) (wide_line [0x4E16, 0x754C])
     ([], [0x4F60, 0x597D]) = Inr ([], [0x4F60, 0x597D, 0x4E16, 0x754C]) \<and>
   ascii ''hello'' \<noteq> [] \<and> ascii ''world'' \<noteq> [] \<and>
   \<not> num_or (lineWidth_of (wide_line (ascii ''hello''))) 0 < 100 * 0.85 \<and>
   assemble_step [] 100 (Some (wide_line (ascii ''hello''))) (wide_line (ascii ''world''))
     ([], ascii ''hello'') = Inr ([], ascii ''hello world'')"
  using merge_join_rule [of "[0x4F60, 0x597D]" "[0x4E16, 0x754C]" "wide_line [0x4F60, 0x597D]" 100
      "[]" 100 "Text_line 500 []" "[]"]
    merge_join_rule [of "ascii ''hello''" "ascii ''world''" "wide_line (ascii ''hello'')" 100
      "[]" 100 "Text_line 500 []" "[]"]
  by (simp add: wide_line_def num_or_def cjk_unit_def ascii_def)

text \<open>
  The claim as stated fails where a boundary character is whitespace other than the
  space: the paragraph \<open>a<TAB>\<close> and the line \<open>b\<close> are joined with a space, where the rule
  of the specification inserts none.
\<close>

theorem merge_tab_counterexample:
  "is_ws (last (ascii ''a'' @ [0x09])) \<and>
   \<not> num_or (lineWidth_of (wide_line (ascii ''a'' @ [0x09]))) 0 < 100 * 0.85 \<and>
   assemble_step [] 100 (Some (wide_line (ascii ''a'' @ [0x09]))) (wide_line (ascii ''b''))
     ([], ascii ''a'' @ [0x09]) = Inr ([], ascii ''a'' @ [0x09] @ ascii '' b'') \<and>
   spec_join (ascii ''a'' @ [0x09]) (ascii ''b'') = ascii ''a'' @ [0x09] @ ascii ''b'' \<and>
   assemble_step [] 100 (Some (wide_line (ascii ''a'' @ [0x09]))) (wide_line (ascii ''b''))
     ([], ascii ''a'' @ [0x09]) \<noteq> Inr ([], spec_join (ascii ''a'' @ [0x09]) (ascii ''b''))"
  by (simp add: wide_line_def num_or_def cjk_unit_def ascii_def spec_join_def is_ws_def
      slice_last_def char_at0_def isCJK_def)

subsection \<open>Reading order\<close>

lemmas page_defs = processed_lines_def page_lines_def text_lines_def add_image_lines_def
  image_at_edge_def skip_item_def is_blank_def trim_def is_ws_def isEdge_def item_y_def
  size_or_def num_or_def HEADER_HEIGHT_def FOOTER_HEIGHT_def Y_TOLERANCE_def array_sort_def
  base_font_size_def count_item_def own_keys_def is_array_index_def js_round_def
  extract_images_def tracker_init_def paint_def visualTopY_def multiply_def identity_matrix_def
  mat_def ascii_def append_item_def line_prefix_def heading_prefix_def

lemmas rx_defs = about_blank_def IGNORE_PATTERNS_def lit_def lit_i_def digit_def space_def
  non_space_def plus_def opt_def any_unit_def ascii_upper_def




text \<open>
  The assembler visits the processed lines from the first to the last, and what it has
  emitted (the page text followed by the open paragraph) only grows at its end.
\<close>

lemma assemble_step_appends:
  "assemble_step imgs mx prev p (pageText, currentParagraph) = Inr (pageText', currentParagraph')
   \<Longrightarrow> \<exists>s. pageText' @ currentParagraph' = pageText @ currentParagraph @ s"
  by (cases p) (auto simp: Let_def flush_paragraph_def split: option.splits if_splits)



subsection \<open>The base font size\<close>

lemma map_of_set_prop: "map_of (set_prop fs k v) = (map_of fs)(k \<mapsto> v)"
  by (induction fs k v rule: set_prop.induct) auto

lemma keys_set_prop: "fst ` set (set_prop fs k v) = insert k (fst ` set fs)"
  by (induction fs k v rule: set_prop.induct) auto

lemma count_item_cnt:
  "cnt (count_item fs it) k = cnt fs k + (if key_of it = k then length (str it) else 0)"
  by (simp add: count_item_def cnt_def key_of_def Let_def map_of_set_prop)

lemma count_item_keys: "fst ` set (count_item fs it) = insert (key_of it) (fst ` set fs)"
  by (simp add: count_item_def key_of_def Let_def keys_set_prop)

lemma foldl_count_item_cnt:
  "cnt (foldl count_item fs its) k = cnt fs k + bucket_count its k"
  by (induction its arbitrary: fs) (simp_all add: bucket_count_def count_item_cnt)

lemma foldl_count_item_keys:
  "fst ` set (foldl count_item fs its) = fst ` set fs \<union> key_of ` set its"
  by (induction its arbitrary: fs) (simp_all add: count_item_keys)

lemma pick_base_stable:
  "\<forall>k \<in> set ks. cnt fs k \<le> mx \<Longrightarrow> pick_base fs ks (b, mx) = (b, mx)"
  by (induction ks) (auto simp: cnt_def split: option.splits)

lemma pick_base_first_max:
  assumes "\<forall>x \<in> set pre. cnt fs x < n" and "map_of fs k = Some n" and "mx < n"
    and "\<forall>x \<in> set post. cnt fs x \<le> n"
  shows "pick_base fs (pre @ k # post) (b, mx) = (of_int k, n)"
  using assms
proof (induction pre arbitrary: b mx)
  case Nil
  then show ?case by (simp add: pick_base_stable)
next
  case (Cons x pre)
  then show ?case by (auto simp: cnt_def split: option.splits)
qed

lemma own_keys_index:
  "\<forall>k \<in> fst ` set fs. is_array_index k \<Longrightarrow> own_keys fs = sort (map fst fs)"
  by (simp add: own_keys_def)

text \<open>
  C3, as the code has it. A page without text runs has base font size 10. Where every
  run's size rounds to an array-index key (an integer from 0 to \<open>2^32 - 2\<close>) and \<open>k\<close>
  is the smallest key among those with the largest count, that count being positive,
  the base font size is \<open>k\<close>, or 10 when \<open>k\<close> is 0: \<open>for ... in\<close> visits such keys in
  ascending numeric order and the comparison is strict, so among buckets of equal
  count the smallest key wins, whichever was seen first.
\<close>

theorem base_font_size_rule:
  "base_font_size [] = 10 \<and>
   ((\<forall>it \<in> set its. is_array_index (key_of it)) \<and> k \<in> key_of ` set its \<and>
    bucket_count its k > 0 \<and>
    (\<forall>k' \<in> key_of ` set its. bucket_count its k' \<le> bucket_count its k \<and>
        (bucket_count its k' = bucket_count its k \<longrightarrow> k \<le> k'))
    \<longrightarrow> base_font_size its = (if k = 0 then 10 else of_int k))"
proof (intro conjI impI)
  show "base_font_size [] = 10"
    by (simp add: base_font_size_def own_keys_def)
next
  let ?fs = "foldl count_item [] its"
  let ?n = "bucket_count its k"
  assume a: "(\<forall>it \<in> set its. is_array_index (key_of it)) \<and> k \<in> key_of ` set its \<and>
    bucket_count its k > 0 \<and>
    (\<forall>k' \<in> key_of ` set its. bucket_count its k' \<le> bucket_count its k \<and>
        (bucket_count its k' = bucket_count its k \<longrightarrow> k \<le> k'))"
  have keys: "fst ` set ?fs = key_of ` set its" by (simp add: foldl_count_item_keys)
  have c: "cnt ?fs x = bucket_count its x" for x
    using foldl_count_item_cnt [of "[]" its x] by (simp add: cnt_def)
  have ok: "own_keys ?fs = sort (map fst ?fs)"
    by (rule own_keys_index) (use a keys in auto)
  have kin: "k \<in> set (sort (map fst ?fs))" using a keys by simp
  then obtain pre post where sp: "sort (map fst ?fs) = pre @ k # post" and npre: "k \<notin> set pre"
    by (meson split_list_first)
  have srt: "sorted (pre @ k # post)" using sp by (metis sorted_sort)
  have inkeys: "set pre \<union> set post \<subseteq> key_of ` set its"
  proof -
    have "set (pre @ k # post) = key_of ` set its" using sp keys by (metis set_sort set_map)
    then show ?thesis by auto
  qed
  have pre: "\<forall>x \<in> set pre. cnt ?fs x < ?n"
  proof
    fix x assume x: "x \<in> set pre"
    then have "x \<le> k" using srt by (auto simp: sorted_append)
    moreover have "x \<noteq> k" using x npre by auto
    ultimately have "x < k" by simp
    moreover have "x \<in> key_of ` set its" using x inkeys by auto
    ultimately have "bucket_count its x \<le> ?n" "bucket_count its x \<noteq> ?n"
      using a by force+
    then show "cnt ?fs x < ?n" by (simp add: c)
  qed
  have post: "\<forall>x \<in> set post. cnt ?fs x \<le> ?n"
    using a inkeys by (auto simp: c)
  have "map_of ?fs k \<noteq> None" using a keys by (metis map_of_eq_None_iff)
  then have mk: "map_of ?fs k = Some ?n" using c [of k] by (auto simp: cnt_def)
  have "pick_base ?fs (own_keys ?fs) (0, 0) = (of_int k, ?n)"
    unfolding ok sp using pre mk post a by (intro pick_base_first_max) auto
  then show "base_font_size its = (if k = 0 then 10 else of_int k)"
    by (simp add: base_font_size_def Let_def)
qed

text \<open>
  With a run of size 14 followed by a run of size 12, two code units each, the first-seen
  key of the largest count is 14 and the code's base font size is 12.
\<close>

theorem base_font_size_first_seen_counterexample:
  "base_font_size [run14, run12] = 12 \<and> spec_base_font_size [run14, run12] = 14 \<and>
   base_font_size [run14, run12] \<noteq> spec_base_font_size [run14, run12]"
  by (simp add: page_defs run14_def run12_def spec_base_font_size_def first_seen_keys_def
      bucket_count_def key_of_def)

theorem base_font_size_rule_witness:
  "base_font_size [] = 10 \<and>
   list_all (\<lambda>it. is_array_index (key_of it)) [run14, run12] \<and>
   12 \<in> key_of ` set [run14, run12] \<and>
   bucket_count [run14, run12] 12 > 0 \<and>
   list_all (\<lambda>k'. bucket_count [run14, run12] k' \<le> bucket_count [run14, run12] 12 \<and>
                 (bucket_count [run14, run12] k' \<noteq> bucket_count [run14, run12] 12 \<or> 12 \<le> k'))
     (map key_of [run14, run12]) \<and>
   base_font_size [run14, run12] = 12"
  using base_font_size_rule [of "[run14, run12]" 12]
  by (simp add: run14_def run12_def bucket_count_def key_of_def js_round_def size_or_def
      num_or_def is_array_index_def ascii_def mat_def)

subsection \<open>The matcher and the text run filter\<close>




















subsection \<open>Images that fail to resolve or decode\<close>

lemma paint_failed: "\<not> is_png (dec pageNumber i f) \<Longrightarrow> paint dec pageNumber i f st = st"
  by (cases "dec pageNumber i f") (simp_all add: paint_def)

lemma track_op_failed:
  "is_paint f \<Longrightarrow> \<not> is_png (dec pageNumber i f) \<Longrightarrow> track_op dec pageNumber i f st = st"
  by (cases f) (simp_all add: paint_failed)

lemma track_ops_failed:
  "i < length fns \<Longrightarrow> is_paint (fns ! i) \<Longrightarrow> \<not> is_png (dec pageNumber (j + i) (fns ! i)) \<Longrightarrow>
   track_ops dec pageNumber j (fns[i := OPS_other]) st = track_ops dec pageNumber j fns st"
proof (induction fns arbitrary: i j st)
  case Nil
  then show ?case by simp
next
  case (Cons f fns)
  show ?case
  proof (cases i)
    case 0
    with Cons.prems show ?thesis by (simp add: track_op_failed)
  next
    case (Suc k)
    with Cons.prems Cons.IH [of k "Suc j"] show ?thesis by simp
  qed
qed

text \<open>The identifiers registered by the loop are those of the paint operators that decoded.\<close>

lemma track_op_images:
  "e \<in> set (pageImages (track_op dec pageNumber i f st)) \<Longrightarrow>
   e \<in> set (pageImages st) \<or> (ident e = Pdf_img pageNumber i \<and> is_paint f \<and> is_png (dec pageNumber i f))"
  by (cases f; cases "dec pageNumber i f") (auto simp: paint_def split: if_splits)

lemma track_ops_images:
  "e \<in> set (pageImages (track_ops dec pageNumber j fns st)) \<Longrightarrow>
   e \<in> set (pageImages st) \<or>
   (\<exists>k < length fns. ident e = Pdf_img pageNumber (j + k) \<and> is_paint (fns ! k) \<and>
       is_png (dec pageNumber (j + k) (fns ! k)))"
proof (induction fns arbitrary: j st)
  case Nil
  then show ?case by simp
next
  case (Cons f fns)
  from Cons.IH [of "Suc j" "track_op dec pageNumber j f st"] Cons.prems
  consider "e \<in> set (pageImages (track_op dec pageNumber j f st))"
    | k where "k < length fns" "ident e = Pdf_img pageNumber (Suc j + k)" "is_paint (fns ! k)"
        "is_png (dec pageNumber (Suc j + k) (fns ! k))"
    by auto
  then show ?case
  proof cases
    case 1
    from track_op_images [OF this] show ?thesis by auto
  next
    case 2
    then have "Suc k < length (f # fns) \<and> ident e = Pdf_img pageNumber (j + Suc k) \<and>
      is_paint ((f # fns) ! Suc k) \<and> is_png (dec pageNumber (j + Suc k) ((f # fns) ! Suc k))"
      by simp
    then show ?thesis by blast
  qed
qed

text \<open>The assembler never reads the width of a line before the first one.\<close>

lemma assemble_step_total:
  "prev = None \<longrightarrow> snd st = [] \<Longrightarrow> \<exists>st'. assemble_step imgs mx prev p st = Inr st'"
  by (cases p; cases st) (auto simp: Let_def split: option.splits)

lemma assemble_loop_total:
  "prev = None \<longrightarrow> snd st = [] \<Longrightarrow> \<exists>st'. assemble_loop imgs mx prev ps st = Inr st'"
proof (induction ps arbitrary: prev st)
  case Nil
  then show ?case by simp
next
  case (Cons p ps)
  then obtain st' where s: "assemble_step imgs mx prev p st = Inr st'"
    using assemble_step_total by blast
  from Cons.IH [of "Some p" st'] show ?case by (simp add: s)
qed

lemma assemble_total: "\<exists>pageText. assemble imgs ps = Inr pageText"
proof -
  have "\<exists>st'. assemble_loop imgs (max_line_width ps) None ps ([], []) = Inr st'"
    by (rule assemble_loop_total) simp
  then obtain st' where "assemble_loop imgs (max_line_width ps) None ps ([], []) = Inr st'"
    by blast
  then show ?thesis by (cases st') (simp add: assemble_def)
qed

lemma convert_page_total:
  "\<exists>pageText. convert_page dec pageNumber pg =
     Inr (pageText, pageImages (extract_images dec pageNumber (fnArray pg)))"
proof -
  obtain t where "assemble (pageImages (extract_images dec pageNumber (fnArray pg)))
      (processed_lines dec pageNumber pg) = Inr t"
    using assemble_total by blast
  then show ?thesis by (simp add: convert_page_def)
qed

text \<open>
  C8. Let the operator at index \<open>i\<close> of a page be a paint operator whose image fails to
  resolve or decode (any outcome but a decoded image). Then the operator leaves the
  tracker's state as it was, so no placement and no resource handle are recorded for
  it; no registered image of the page carries its identifier; the images extracted
  from the page and the page's whole result are those of the same page with a no-op
  in place of that operator; and the page is converted, not aborted.
\<close>

theorem failed_image_is_skipped:
  assumes "i < length (fnArray pg)" and "is_paint (fnArray pg ! i)"
    and "\<not> is_png (dec pageNumber i (fnArray pg ! i))"
  shows "track_op dec pageNumber i (fnArray pg ! i) st = st \<and>
         (\<forall>e \<in> set (pageImages (extract_images dec pageNumber (fnArray pg))).
            ident e \<noteq> Pdf_img pageNumber i) \<and>
         extract_images dec pageNumber ((fnArray pg)[i := OPS_other]) =
           extract_images dec pageNumber (fnArray pg) \<and>
         convert_page dec pageNumber (pg\<lparr>fnArray := (fnArray pg)[i := OPS_other]\<rparr>) =
           convert_page dec pageNumber pg \<and>
         (\<exists>pageText. convert_page dec pageNumber pg =
            Inr (pageText, pageImages (extract_images dec pageNumber (fnArray pg))))"
proof -
  have 1: "track_op dec pageNumber i (fnArray pg ! i) st = st"
    using assms by (simp add: track_op_failed)
  have 2: "ident e \<noteq> Pdf_img pageNumber i"
    if "e \<in> set (pageImages (extract_images dec pageNumber (fnArray pg)))" for e
    using track_ops_images [of e dec pageNumber 0 "fnArray pg" tracker_init] that assms(3)
    by (auto simp: extract_images_def tracker_init_def)
  have 3: "extract_images dec pageNumber ((fnArray pg)[i := OPS_other]) =
           extract_images dec pageNumber (fnArray pg)"
    unfolding extract_images_def using assms by (intro track_ops_failed) simp_all
  have 4: "convert_page dec pageNumber (pg\<lparr>fnArray := (fnArray pg)[i := OPS_other]\<rparr>) =
           convert_page dec pageNumber pg"
    by (simp add: convert_page_def processed_lines_def 3)
  show ?thesis using 1 2 3 4 convert_page_total by blast
qed


lemmas asm_defs = assemble_def convert_page_def max_line_width_def flush_paragraph_def nn_def
  slice_last_def char_at0_def isCJK_def cjk_unit_def convertPdfToMd_def

theorem failed_image_is_skipped_witness:
  "1 < length (fnArray two_image_page) \<and> is_paint (fnArray two_image_page ! 1) \<and>
   \<not> is_png (failing_decoder 1 1 (fnArray two_image_page ! 1)) \<and>
   convert_page failing_decoder 1 two_image_page =
     Inr (ascii ''![Image](blob:1)'' @ nn @ ascii ''Intro'' @ nn,
          [\<lparr>src = ascii ''blob:1'', alt = Pdf_img 1 2, title = [], ident = Pdf_img 1 2\<rparr>]) \<and>
   convert_page failing_decoder 1
     (two_image_page\<lparr>fnArray := (fnArray two_image_page)[1 := OPS_other]\<rparr>) =
     convert_page failing_decoder 1 two_image_page"
  using failed_image_is_skipped [of 1 two_image_page failing_decoder 1 tracker_init]
  by (simp add: two_image_page_def failing_decoder_def run15_def page_defs rx_defs asm_defs Let_def)

subsection \<open>Images near the page edges\<close>

lemma track_op_infos:
  "x \<in> set (imageInfos (track_op dec pageNumber i f st)) \<Longrightarrow>
   x \<in> set (imageInfos st) \<or> info_id x = Pdf_img pageNumber i"
  by (cases f; cases "dec pageNumber i f") (auto simp: paint_def split: if_splits)

lemma track_op_distinct:
  assumes "distinct (map info_id (imageInfos st))"
    and "\<forall>x \<in> set (imageInfos st). \<exists>k < i. info_id x = Pdf_img pageNumber k"
  shows "distinct (map info_id (imageInfos (track_op dec pageNumber i f st)))"
  using assms by (cases f; cases "dec pageNumber i f") (auto simp: paint_def)

lemma track_ops_distinct:
  assumes "distinct (map info_id (imageInfos st))"
    and "\<forall>x \<in> set (imageInfos st). \<exists>k < j. info_id x = Pdf_img pageNumber k"
  shows "distinct (map info_id (imageInfos (track_ops dec pageNumber j fns st)))"
  using assms
proof (induction fns arbitrary: j st)
  case Nil
  then show ?case by simp
next
  case (Cons f fns)
  let ?st = "track_op dec pageNumber j f st"
  have "distinct (map info_id (imageInfos ?st))"
    using Cons.prems by (rule track_op_distinct)
  moreover have "\<forall>x \<in> set (imageInfos ?st). \<exists>k < Suc j. info_id x = Pdf_img pageNumber k"
  proof
    fix x assume "x \<in> set (imageInfos ?st)"
    from track_op_infos [OF this] Cons.prems(2)
    show "\<exists>k < Suc j. info_id x = Pdf_img pageNumber k" using less_Suc_eq by auto
  qed
  ultimately show ?case using Cons.IH [of ?st "Suc j"] by simp
qed

lemma extract_images_distinct:
  "distinct (map info_id (imageInfos (extract_images dec pageNumber fns)))"
  unfolding extract_images_def by (rule track_ops_distinct) (simp_all add: tracker_init_def)

lemma track_op_registered:
  "info_id ` set (imageInfos st) \<subseteq> ident ` set (pageImages st) \<Longrightarrow>
   info_id ` set (imageInfos (track_op dec pageNumber i f st)) \<subseteq>
   ident ` set (pageImages (track_op dec pageNumber i f st))"
  by (cases f; cases "dec pageNumber i f") (auto simp: paint_def)

lemma track_ops_registered:
  "info_id ` set (imageInfos st) \<subseteq> ident ` set (pageImages st) \<Longrightarrow>
   info_id ` set (imageInfos (track_ops dec pageNumber j fns st)) \<subseteq>
   ident ` set (pageImages (track_ops dec pageNumber j fns st))"
proof (induction fns arbitrary: j st)
  case Nil
  then show ?case by simp
next
  case (Cons f fns)
  from Cons.IH [OF track_op_registered [OF Cons.prems]] show ?case by simp
qed

lemma extract_images_registered:
  "info_id ` set (imageInfos (extract_images dec pageNumber fns)) \<subseteq>
   ident ` set (pageImages (extract_images dec pageNumber fns))"
  unfolding extract_images_def by (rule track_ops_registered) (simp add: tracker_init_def)

lemma add_item_all_text:
  "\<forall>l \<in> set ls. imageId l = None \<Longrightarrow> \<forall>l \<in> set (add_item y it ls). imageId l = None"
  by (induction y it ls rule: add_item.induct) auto

lemma foldl_text_lines_all_text:
  "\<forall>l \<in> set ls. imageId l = None \<Longrightarrow>
   \<forall>l \<in> set (foldl (\<lambda>lines it. if skip_item ph b it then lines
                        else add_item (item_y it) it lines) ls its). imageId l = None"
proof (induction its arbitrary: ls)
  case Nil
  then show ?case by simp
next
  case (Cons it its)
  show ?case
    using Cons.IH [of ls] Cons.IH [of "add_item (item_y it) it ls"] Cons.prems
      add_item_all_text [of ls] by simp
qed

lemma text_lines_all_text: "\<forall>l \<in> set (text_lines ph b its). imageId l = None"
  unfolding text_lines_def by (rule foldl_text_lines_all_text) simp

lemma set_add_image_lines:
  "set (add_image_lines ph infos ls) =
   set ls \<union> {Image_line (info_y x) (info_id x) | x. x \<in> set infos \<and> \<not> image_at_edge ph x}"
  unfolding add_image_lines_def by (induction infos arbitrary: ls) auto

lemma page_lines_image:
  assumes "l \<in> set (page_lines ph b its infos)" and "imageId l = Some i"
  shows "\<exists>x \<in> set infos. \<not> image_at_edge ph x \<and> info_id x = i"
proof -
  have "l \<in> set (text_lines ph b its) \<or>
        (\<exists>x. l = Image_line (info_y x) (info_id x) \<and> x \<in> set infos \<and> \<not> image_at_edge ph x)"
    using assms(1) by (auto simp: page_lines_def set_array_sort set_add_image_lines)
  then show ?thesis using assms(2) text_lines_all_text [of ph b its] by auto
qed

lemma imageId_data_process_line: "imageId (data (process_line b l)) = imageId l"
  by (cases l) (simp_all add: Let_def split: prod.splits)

lemma find_filter_other:
  "k \<noteq> Some i \<Longrightarrow>
   find (\<lambda>e. Some (ident e) = k) (filter (\<lambda>e. ident e \<noteq> i) imgs) =
   find (\<lambda>e. Some (ident e) = k) imgs"
  by (induction imgs) auto

lemma assemble_step_without:
  "imageId (data p) \<noteq> Some i \<Longrightarrow>
   assemble_step (filter (\<lambda>e. ident e \<noteq> i) imgs) mx prev p st = assemble_step imgs mx prev p st"
  by (cases p; cases st) (simp_all add: find_filter_other)

lemma assemble_loop_without:
  "\<forall>p \<in> set ps. imageId (data p) \<noteq> Some i \<Longrightarrow>
   assemble_loop (filter (\<lambda>e. ident e \<noteq> i) imgs) mx prev ps st = assemble_loop imgs mx prev ps st"
  by (induction ps arbitrary: prev st) (simp_all add: assemble_step_without split: sum.splits)

lemma convert_pages_total:
  "\<exists>parts' all'. convert_pages dec n pgs (parts, all) = Inr (parts', all') \<and>
     set all \<subseteq> set all' \<and>
     (\<forall>k < length pgs. set (pageImages (extract_images dec (n + k) (fnArray (pgs ! k)))) \<subseteq> set all')"
proof (induction pgs arbitrary: n parts all)
  case Nil
  show ?case by simp
next
  case (Cons pg pgs)
  let ?imgs = "pageImages (extract_images dec n (fnArray pg))"
  obtain t where t: "convert_page dec n pg = Inr (t, ?imgs)" using convert_page_total by blast
  let ?parts = "if trim t \<noteq> [] then parts @ [t] else parts"
  obtain parts' all' where r: "convert_pages dec (Suc n) pgs (?parts, all @ ?imgs) = Inr (parts', all')"
    and sub: "set (all @ ?imgs) \<subseteq> set all'"
    and rest: "\<forall>k < length pgs.
        set (pageImages (extract_images dec (Suc n + k) (fnArray (pgs ! k)))) \<subseteq> set all'"
    using Cons.IH [of "Suc n" ?parts "all @ ?imgs"] by blast
  have "convert_pages dec n (pg # pgs) (parts, all) = Inr (parts', all')"
    using t r by simp
  moreover have "set all \<subseteq> set all'" using sub by simp
  moreover have "\<forall>k < length (pg # pgs).
      set (pageImages (extract_images dec (n + k) (fnArray ((pg # pgs) ! k)))) \<subseteq> set all'"
  proof (intro allI impI)
    fix k assume "k < length (pg # pgs)"
    then show "set (pageImages (extract_images dec (n + k) (fnArray ((pg # pgs) ! k)))) \<subseteq> set all'"
      using sub rest by (cases k) auto
  qed
  ultimately show ?case by blast
qed

text \<open>
  C10. Let an image of a page have decoded, so that its placement is among the page's
  \<open>imageInfos\<close>, with a visual top below 20 or above \<open>pageHeight - 20\<close>. Then no line
  of the page carries its identifier, and the page's text is the text that would be
  assembled if the image's resource were not among the page's images at all; yet a
  resource with that identifier is among the page's images, and it is in the image
  list that the conversion of any document containing the page returns. In the witness
  the returned list holds an image that the Markdown does not mention.
\<close>

theorem edge_image_registered_not_emitted:
  assumes "img \<in> set (imageInfos (extract_images dec pageNumber (fnArray pg)))"
    and "image_at_edge (pageHeight pg) img"
  shows "(\<forall>p \<in> set (processed_lines dec pageNumber pg). imageId (data p) \<noteq> Some (info_id img)) \<and>
         assemble (pageImages (extract_images dec pageNumber (fnArray pg)))
             (processed_lines dec pageNumber pg) =
           assemble (filter (\<lambda>e. ident e \<noteq> info_id img)
                       (pageImages (extract_images dec pageNumber (fnArray pg))))
             (processed_lines dec pageNumber pg) \<and>
         (\<exists>e \<in> set (pageImages (extract_images dec pageNumber (fnArray pg))).
            ident e = info_id img \<and>
            (pageNumber = Suc (length pre) \<longrightarrow>
               (\<exists>md all. convertPdfToMd dec (pre @ pg # post) = Inr (md, all) \<and> e \<in> set all)))"
proof -
  let ?tr = "extract_images dec pageNumber (fnArray pg)"
  let ?ps = "processed_lines dec pageNumber pg"
  have inj: "inj_on info_id (set (imageInfos ?tr))"
    using extract_images_distinct [of dec pageNumber "fnArray pg"] by (simp add: distinct_map)
  have 1: "imageId (data p) \<noteq> Some (info_id img)" if p: "p \<in> set ?ps" for p
  proof
    assume eq: "imageId (data p) = Some (info_id img)"
    from p obtain l where l: "l \<in> set (page_lines (pageHeight pg) (base_font_size (items pg))
        (items pg) (imageInfos ?tr))" and pl: "p = process_line (base_font_size (items pg)) l"
      by (auto simp: processed_lines_def Let_def)
    have "imageId l = Some (info_id img)" using eq pl by (simp add: imageId_data_process_line)
    from page_lines_image [OF l this] obtain x where x: "x \<in> set (imageInfos ?tr)"
      "\<not> image_at_edge (pageHeight pg) x" "info_id x = info_id img" by blast
    then have "x = img" using inj assms(1) by (auto dest: inj_onD)
    then show False using x(2) assms(2) by simp
  qed
  then have 2: "assemble (pageImages ?tr) ?ps =
      assemble (filter (\<lambda>e. ident e \<noteq> info_id img) (pageImages ?tr)) ?ps"
    by (simp add: assemble_def assemble_loop_without)
  obtain e where e: "e \<in> set (pageImages ?tr)" "ident e = info_id img"
    using extract_images_registered [of dec pageNumber "fnArray pg"] assms(1) by auto
  have 3: "\<exists>md all. convertPdfToMd dec (pre @ pg # post) = Inr (md, all) \<and> e \<in> set all"
    if pn: "pageNumber = Suc (length pre)"
  proof -
    obtain parts' all' where c: "convert_pages dec 1 (pre @ pg # post) ([], []) = Inr (parts', all')"
      and k: "\<forall>k < length (pre @ pg # post).
        set (pageImages (extract_images dec (1 + k) (fnArray ((pre @ pg # post) ! k)))) \<subseteq> set all'"
      using convert_pages_total [of dec 1 "pre @ pg # post" "[]" "[]"] by blast
    have "set (pageImages (extract_images dec (1 + length pre)
        (fnArray ((pre @ pg # post) ! length pre)))) \<subseteq> set all'"
      using k by (metis add_Suc_right length_Cons length_append less_add_Suc1)
    then have "e \<in> set all'" using e(1) pn by auto
    then show ?thesis using c by (simp add: convertPdfToMd_def)
  qed
  show ?thesis using 1 2 3 e by blast
qed


theorem edge_image_registered_not_emitted_witness:
  "edge_info \<in> set (imageInfos (extract_images png_decoder 1 (fnArray edge_image_page))) \<and>
   image_at_edge (pageHeight edge_image_page) edge_info \<and>
   convertPdfToMd png_decoder [edge_image_page] =
     Inr (ascii ''Intro'' @ nn,
          [\<lparr>src = ascii ''blob:1'', alt = Pdf_img 1 1, title = [], ident = Pdf_img 1 1\<rparr>])"
  using edge_image_registered_not_emitted [of edge_info png_decoder 1 edge_image_page "[]" "[]"]
  by (simp add: edge_image_page_def edge_info_def png_decoder_def run15_def page_defs rx_defs
      asm_defs Let_def)

subsection \<open>The document\<close>

lemma all_dropWhile: "(\<forall>x \<in> set (dropWhile P xs). P x) \<longleftrightarrow> (\<forall>x \<in> set xs. P x)"
proof
  assume a: "\<forall>x \<in> set (dropWhile P xs). P x"
  have "dropWhile P xs = []"
  proof (rule ccontr)
    assume ne: "dropWhile P xs \<noteq> []"
    then have "\<not> P (hd (dropWhile P xs))" by (rule hd_dropWhile)
    moreover have "hd (dropWhile P xs) \<in> set (dropWhile P xs)" using ne by simp
    ultimately show False using a by blast
  qed
  then show "\<forall>x \<in> set xs. P x" by (simp add: dropWhile_eq_Nil_conv)
next
  assume "\<forall>x \<in> set xs. P x"
  then show "\<forall>x \<in> set (dropWhile P xs). P x" by (meson set_dropWhileD)
qed

lemma trim_eq_Nil: "trim s = [] \<longleftrightarrow> (\<forall>c \<in> set s. is_ws c)"
proof -
  have "trim s = [] \<longleftrightarrow> (\<forall>c \<in> set (rev (dropWhile is_ws s)). is_ws c)"
    by (simp add: trim_def dropWhile_eq_Nil_conv)
  also have "\<dots> \<longleftrightarrow> (\<forall>c \<in> set s. is_ws c)" using all_dropWhile [of is_ws s] by simp
  finally show ?thesis .
qed

lemma not_blank_iff: "\<not> is_blank s \<longleftrightarrow> (\<exists>c \<in> set s. \<not> is_ws c)"
  by (auto simp: is_blank_def trim_eq_Nil)

lemma add_item_good:
  "\<not> is_blank (str it) \<Longrightarrow> \<forall>l \<in> set ls. good_line l \<Longrightarrow>
   \<forall>l \<in> set (add_item y it ls). good_line l"
  by (induction y it ls rule: add_item.induct) auto

lemma foldl_text_lines_good:
  "\<forall>l \<in> set ls. good_line l \<Longrightarrow>
   \<forall>l \<in> set (foldl (\<lambda>lines it. if skip_item ph b it then lines
                        else add_item (item_y it) it lines) ls its). good_line l"
proof (induction its arbitrary: ls)
  case Nil
  then show ?case by simp
next
  case (Cons it its)
  show ?case
  proof (cases "skip_item ph b it")
    case True
    then show ?thesis using Cons.IH [OF Cons.prems] by simp
  next
    case False
    then have "\<not> is_blank (str it)" by (auto simp: skip_item_def split: if_splits)
    from add_item_good [OF this Cons.prems]
    show ?thesis using False Cons.IH [of "add_item (item_y it) it ls"] by simp
  qed
qed

lemma page_lines_good: "\<forall>l \<in> set (page_lines ph b its infos). good_line l"
proof -
  have "\<forall>l \<in> set (text_lines ph b its). good_line l"
    unfolding text_lines_def by (rule foldl_text_lines_good) simp
  then show ?thesis by (auto simp: page_lines_def set_array_sort set_add_image_lines)
qed

lemma append_item_str:
  "set (fst st) \<union> set (str it) \<subseteq> set (fst (append_item b st it))"
  by (cases st) (auto simp: append_item_def Let_def)

lemma foldl_append_item_str:
  "set (fst st) \<union> (\<Union>it \<in> set its. set (str it)) \<subseteq> set (fst (foldl (append_item b) st its))"
proof (induction its arbitrary: st)
  case Nil
  show ?case by simp
next
  case (Cons it its)
  show ?case using Cons.IH [of "append_item b st it"] append_item_str [of st it b] by auto
qed

lemma process_line_good: "good_line l \<Longrightarrow> good_processed (process_line b l)"
proof (cases l)
  case (Text_line y its)
  assume "good_line l"
  let ?s = "array_sort (\<lambda>a b. m4 (transform a) - m4 (transform b)) its"
  from \<open>good_line l\<close> Text_line obtain it c where "it \<in> set its" "c \<in> set (str it)" "\<not> is_ws c"
    by (cases its) (auto simp: not_blank_iff)
  then have "c \<in> (\<Union>it \<in> set ?s. set (str it))" by (auto simp: set_array_sort)
  then have "c \<in> set (fst (foldl (append_item b) ([], - 1, - 1, - 1) ?s))"
    using foldl_append_item_str [of "([], - 1, - 1, - 1)" ?s b] by blast
  then show ?thesis using Text_line \<open>\<not> is_ws c\<close>
    by (auto simp: Let_def split: prod.splits)
next
  case (Image_line y i)
  then show ?thesis by simp
qed

lemma processed_lines_good: "\<forall>p \<in> set (processed_lines dec n pg). good_processed p"
  by (auto simp: processed_lines_def Let_def process_line_good page_lines_good)

lemma assemble_step_paragraph:
  assumes "good_processed p" and "cp = [] \<or> (\<exists>c \<in> set cp. \<not> is_ws c)"
    and "assemble_step imgs mx prev p (pt, cp) = Inr (pt', cp')"
  shows "cp' = [] \<or> (\<exists>c \<in> set cp'. \<not> is_ws c)"
  using assms by (cases p) (auto simp: Let_def split: option.splits if_splits)

lemma assemble_loop_paragraph:
  assumes "\<forall>p \<in> set ps. good_processed p" and "cp = [] \<or> (\<exists>c \<in> set cp. \<not> is_ws c)"
    and "assemble_loop imgs mx prev ps (pt, cp) = Inr (pt', cp')"
  shows "cp' = [] \<or> (\<exists>c \<in> set cp'. \<not> is_ws c)"
  using assms
proof (induction ps arbitrary: prev pt cp)
  case Nil
  then show ?case by simp
next
  case (Cons p ps)
  from Cons.prems(3) obtain pt1 cp1 where
    s: "assemble_step imgs mx prev p (pt, cp) = Inr (pt1, cp1)"
    and r: "assemble_loop imgs mx (Some p) ps (pt1, cp1) = Inr (pt', cp')"
    by (auto split: sum.splits)
  have "cp1 = [] \<or> (\<exists>c \<in> set cp1. \<not> is_ws c)"
    using assemble_step_paragraph [OF _ Cons.prems(2) s] Cons.prems(1) by simp
  from Cons.IH [OF _ this r] Cons.prems(1) show ?case by simp
qed

lemma no_paint_no_images:
  assumes "\<forall>f \<in> set fns. \<not> is_paint f"
  shows "pageImages (extract_images dec n fns) = []"
proof -
  have "e \<notin> set (pageImages (extract_images dec n fns))" for e
    using track_ops_images [of e dec n 0 fns tracker_init] assms
    by (auto simp: extract_images_def tracker_init_def)
  then show ?thesis by (meson last_in_set)
qed

text \<open>
  C7. If the only page of a document has no paint operator and its lines leave the
  assembler with nothing emitted and one open paragraph \<open>p\<close>, the conversion returns
  the Markdown \<open>p\<close> followed by a blank line, and no image. And a page whose text is
  entirely whitespace adds nothing to \<open>parts\<close>, the list whose members are joined into
  the returned Markdown: the conversion goes on with the following pages as if from
  the same Markdown so far (the images the page registered, if any, are kept).
\<close>

theorem one_paragraph_page_round_trip:
  "((\<forall>f \<in> set (fnArray pg). \<not> is_paint f) \<and> p \<noteq> [] \<and>
    assemble_loop [] (max_line_width (processed_lines dec 1 pg)) None (processed_lines dec 1 pg)
      ([], []) = Inr ([], p)
    \<longrightarrow> convertPdfToMd dec [pg] = Inr (p @ nn, [])) \<and>
   (convert_page dec n pg = Inr (pageText, imgs) \<and> trim pageText = []
    \<longrightarrow> convert_pages dec n (pg # pgs) (parts, allImages) =
          convert_pages dec (Suc n) pgs (parts, allImages @ imgs))"
proof (intro conjI impI)
  assume a: "(\<forall>f \<in> set (fnArray pg). \<not> is_paint f) \<and> p \<noteq> [] \<and>
    assemble_loop [] (max_line_width (processed_lines dec 1 pg)) None (processed_lines dec 1 pg)
      ([], []) = Inr ([], p)"
  then have imgs: "pageImages (extract_images dec 1 (fnArray pg)) = []"
    by (simp add: no_paint_no_images)
  have "p = [] \<or> (\<exists>c \<in> set p. \<not> is_ws c)"
    using assemble_loop_paragraph [of "processed_lines dec 1 pg" "[]" "[]" _ None "[]" "[]" p] a
      processed_lines_good by blast
  then have "trim (p @ nn) \<noteq> []" using a by (auto simp: trim_eq_Nil)
  moreover have "convert_page dec 1 pg = Inr (p @ nn, [])"
    using a imgs by (simp add: convert_page_def assemble_def Let_def flush_paragraph_def)
  ultimately show "convertPdfToMd dec [pg] = Inr (p @ nn, [])"
    by (simp add: convertPdfToMd_def)
next
  assume "convert_page dec n pg = Inr (pageText, imgs) \<and> trim pageText = []"
  then show "convert_pages dec n (pg # pgs) (parts, allImages) =
          convert_pages dec (Suc n) pgs (parts, allImages @ imgs)"
    by simp
qed

theorem one_paragraph_page_round_trip_witness:
  "list_all (\<lambda>f. \<not> is_paint f) (fnArray hello_page) \<and> ascii ''hello world'' \<noteq> [] \<and>
   assemble_loop [] (max_line_width (processed_lines png_decoder 1 hello_page)) None
     (processed_lines png_decoder 1 hello_page) ([], []) = Inr ([], ascii ''hello world'') \<and>
   convertPdfToMd png_decoder [hello_page] = Inr (ascii ''hello world'' @ nn, []) \<and>
   convert_page png_decoder 1 empty_page = Inr ([], []) \<and> trim [] = [] \<and>
   convertPdfToMd png_decoder [empty_page, hello_page] = Inr (ascii ''hello world'' @ nn, [])"
  using one_paragraph_page_round_trip [of hello_page "ascii ''hello world''" png_decoder 1 "[]" "[]"
      "[]" "[]" "[]"]
    one_paragraph_page_round_trip [of empty_page "[]" png_decoder 1 "[]" "[]" "[hello_page]" "[]" "[]"]
  by (simp add: hello_page_def empty_page_def hello_run_def world_run_def png_decoder_def
      page_defs rx_defs asm_defs Let_def)

end
